theory Spec2Isabelle
  imports Main "HOL-Library.Char_ord" "HOL-Library.List_Lexorder" "HOL-Library.Multiset"
begin

section \<open>Strings\<close>

text \<open>
  Python \<open>str\<close> values are modelled as \<open>string\<close>: a list of characters, each
  character a code point below 256. The order on strings is the lexicographic order
  on code points, which is the order Python's \<open>sorted\<close> uses on \<open>str\<close>.
\<close>

text \<open>\<open>str.isspace\<close> on one character, for the code points below 256.\<close>

definition is_space :: "char \<Rightarrow> bool" where
  "is_space c = (of_char c \<in> {9, 10, 11, 12, 13, 28, 29, 30, 31, 32, 133, 160 :: nat})"

text \<open>\<open>s.strip()\<close>: whitespace removed at both ends.\<close>

definition strip :: "string \<Rightarrow> string" where
  "strip s = rev (dropWhile is_space (rev (dropWhile is_space s)))"

text \<open>\<open>s.split(sep)\<close> for a one-character separator: never an empty list.\<close>

fun str_split :: "char \<Rightarrow> string \<Rightarrow> string list" where
  "str_split sep [] = [[]]"
| "str_split sep (c # cs) =
     (if c = sep then [] # str_split sep cs
      else (case str_split sep cs of
              [] \<Rightarrow> [[c]]
            | w # ws \<Rightarrow> (c # w) # ws))"

text \<open>\<open>s.endswith(suffix)\<close>.\<close>

definition endswith :: "string \<Rightarrow> string \<Rightarrow> bool" where
  "endswith s suffix =
     (length suffix \<le> length s \<and> drop (length s - length suffix) s = suffix)"

section \<open>The migration runner (migrations/migrate.py)\<close>

subsection \<open>Database, connection and transaction\<close>

text \<open>
  The database holds the table \<open>applied_migrations\<close> (its \<open>version\<close> column, in
  insertion order; \<open>None\<close> while the table does not exist) and everything else, which
  the runner never inspects.
\<close>

record 'd database =
  tables :: 'd
  ledger :: "string list option"

text \<open>
  A psycopg2 connection without autocommit: \<open>working\<close> is what the open transaction
  sees, \<open>committed\<close> what the server keeps. \<open>trace\<close> lists what the run did, one
  event for each progress line the source prints.
\<close>

datatype event =
    Skipped string
  | Applying string
  | Executed string string
  | ExecError string string
  | Recorded string

datatype error =
    ConnectError
  | ListdirError
  | ReadError string
  | StatementError string string
  | UnexpectedError string string
  | InsertError string

record 'd conn =
  committed :: "'d database"
  working :: "'d database"
  trace :: "event list"

definition commit :: "'d conn \<Rightarrow> 'd conn" where
  "commit s = s\<lparr>committed := working s\<rparr>"

definition rollback :: "'d conn \<Rightarrow> 'd conn" where
  "rollback s = s\<lparr>working := committed s\<rparr>"

definition emit :: "event \<Rightarrow> 'd conn \<Rightarrow> 'd conn" where
  "emit ev s = s\<lparr>trace := trace s @ [ev]\<rparr>"

text \<open>\<open>CREATE TABLE IF NOT EXISTS applied_migrations (...)\<close>.\<close>

definition ensure_ledger :: "'d database \<Rightarrow> 'd database" where
  "ensure_ledger db = (case ledger db of None \<Rightarrow> db\<lparr>ledger := Some []\<rparr> | Some _ \<Rightarrow> db)"

text \<open>\<open>SELECT version FROM applied_migrations\<close>, read into a set.\<close>

definition ledger_rows :: "'d database \<Rightarrow> string list" where
  "ledger_rows db = (case ledger db of None \<Rightarrow> [] | Some rows \<Rightarrow> rows)"

text \<open>
  \<open>INSERT INTO applied_migrations (version) VALUES (%s)\<close>: fails when the table is
  missing and when the version is there already (the column is \<open>UNIQUE\<close>).
\<close>

definition insert_version :: "string \<Rightarrow> 'd database \<Rightarrow> 'd database option" where
  "insert_version version db =
     (case ledger db of
        None \<Rightarrow> None
      | Some rows \<Rightarrow>
          if version \<in> set rows then None
          else Some (db\<lparr>ledger := Some (rows @ [version])\<rparr>))"

subsection \<open>The environment of a run\<close>

text \<open>
  How \<open>cursor.execute\<close> of one statement of a script ends: it returns, it raises
  \<open>psycopg2.Error\<close>, or it raises another exception.
\<close>

datatype exec_status = Ok | DatabaseError | OtherException

text \<open>
  \<open>connects\<close>: whether \<open>get_db_connection\<close> returns a connection;
  \<open>listdir\<close>: \<open>os.listdir(migrations_dir)\<close>, in the order the filesystem gives, \<open>None\<close>
  when it raises; \<open>read_file\<close>: the text of a file, \<open>None\<close> when opening or reading
  raises; \<open>exec\<close>: \<open>cursor.execute\<close> of one statement of a script. The runner
  passes every statement to the server as it is, so a statement is free to do what the
  server allows: \<open>exec\<close> is given what the server keeps and what the open transaction
  sees, in this order, and returns how the call ends and both databases after it. A
  statement that commits, or that acts outside the transaction as \<open>nextval\<close> does,
  changes the first of the two.
\<close>

record 'd env =
  connects :: bool
  listdir :: "string list option"
  read_file :: "string \<Rightarrow> string option"
  exec :: "string \<Rightarrow> 'd database \<times> 'd database \<Rightarrow>
           exec_status \<times> 'd database \<times> 'd database"

subsection \<open>apply\_migrations\<close>

text \<open>\<open>sorted([f for f in os.listdir(migrations_dir) if f.endswith('.sql')])\<close>.\<close>

definition migration_files :: "string list \<Rightarrow> string list" where
  "migration_files names = sort (filter (\<lambda>f. endswith f ''.sql'') names)"

text \<open>\<open>filename.split('_')[0]\<close>.\<close>

definition version_of :: "string \<Rightarrow> string" where
  "version_of filename =
     (case str_split (CHR ''_'') filename of [] \<Rightarrow> [] | v # _ \<Rightarrow> v)"

text \<open>\<open>[cmd.strip() for cmd in sql_script.split(';') if cmd.strip()]\<close>.\<close>

definition sql_commands :: "string \<Rightarrow> string list" where
  "sql_commands sql_script =
     map strip (filter (\<lambda>cmd. strip cmd \<noteq> []) (str_split (CHR '';'') sql_script))"

text \<open>
  The loop over the statements of one script. A statement that raises
  \<open>psycopg2.Error\<close> is reported, the transaction is rolled back and the error raised
  again; any other exception leaves the loop at once, past that handler. The
  statements after a failure are not reached.
\<close>

fun run_commands ::
  "'d env \<Rightarrow> string \<Rightarrow> string list \<Rightarrow> 'd conn \<Rightarrow> error option \<times> 'd conn" where
  "run_commands e filename [] s = (None, s)"
| "run_commands e filename (command # rest) s =
     (if command \<noteq> [] then
        (case exec e command (committed s, working s) of
           (Ok, kept, seen) \<Rightarrow>
             run_commands e filename rest
               (emit (Executed filename command) (s\<lparr>committed := kept, working := seen\<rparr>))
         | (DatabaseError, kept, seen) \<Rightarrow>
             (Some (StatementError filename command),
              rollback (emit (ExecError filename command)
                (s\<lparr>committed := kept, working := seen\<rparr>)))
         | (OtherException, kept, seen) \<Rightarrow>
             (Some (UnexpectedError filename command),
              s\<lparr>committed := kept, working := seen\<rparr>))
      else run_commands e filename rest s)"

text \<open>The body of the loop over the files, for one file.\<close>

definition apply_file ::
  "'d env \<Rightarrow> string list \<Rightarrow> string \<Rightarrow> 'd conn \<Rightarrow> error option \<times> 'd conn" where
  "apply_file e applied_versions filename s =
     (let version = version_of filename in
      if version \<in> set applied_versions then (None, emit (Skipped filename) s)
      else
        (let s1 = emit (Applying filename) s in
         case read_file e filename of
           None \<Rightarrow> (Some (ReadError filename), s1)
         | Some sql_script \<Rightarrow>
             (case run_commands e filename (sql_commands sql_script) s1 of
                (Some err, s2) \<Rightarrow> (Some err, s2)
              | (None, s2) \<Rightarrow>
                  (case insert_version version (working s2) of
                     None \<Rightarrow> (Some (InsertError version), s2)
                   | Some db' \<Rightarrow>
                       (None, emit (Recorded filename) (commit (s2\<lparr>working := db'\<rparr>)))))))"

text \<open>The loop over the files: the first error ends it.\<close>

fun migrate_loop ::
  "'d env \<Rightarrow> string list \<Rightarrow> string list \<Rightarrow> 'd conn \<Rightarrow> error option \<times> 'd conn" where
  "migrate_loop e applied_versions [] s = (None, s)"
| "migrate_loop e applied_versions (filename # rest) s =
     (case apply_file e applied_versions filename s of
        (Some err, s') \<Rightarrow> (Some err, s')
      | (None, s') \<Rightarrow> migrate_loop e applied_versions rest s')"

text \<open>
  The \<open>try\<close> block of \<open>apply_migrations\<close> with its two \<open>except\<close> clauses, once the
  connection is there: the result is the exception raised, if any, and the connection as
  the \<open>finally\<close> clause finds it. Both \<open>except\<close> clauses roll back and raise again.
\<close>

definition run_until_close :: "'d env \<Rightarrow> 'd database \<Rightarrow> error option \<times> 'd conn" where
  "run_until_close e db =
     (let s0 = commit \<lparr>committed = db, working = ensure_ledger db, trace = []\<rparr>;
          applied_versions = ledger_rows (working s0);
          (r, s1) =
            (case listdir e of
               None \<Rightarrow> (Some ListdirError, s0)
             | Some names \<Rightarrow> migrate_loop e applied_versions (migration_files names) s0)
      in (r, case r of None \<Rightarrow> s1 | Some _ \<Rightarrow> rollback s1))"

text \<open>
  What a run leaves: \<open>outcome\<close> is \<open>None\<close> when \<open>apply_migrations\<close> returns and the
  exception it raises otherwise; \<open>final_db\<close> is the database after the connection is
  closed, which drops what is not committed; \<open>events\<close> is the trace of the run.
\<close>

record 'd result =
  outcome :: "error option"
  final_db :: "'d database"
  events :: "event list"

definition apply_migrations :: "'d env \<Rightarrow> 'd database \<Rightarrow> 'd result" where
  "apply_migrations e db =
     (if \<not> connects e then \<lparr>outcome = Some ConnectError, final_db = db, events = []\<rparr>
      else
        (let (r, s2) = run_until_close e db
         in \<lparr>outcome = r, final_db = committed s2, events = trace s2\<rparr>))"

text \<open>
  The \<open>__main__\<close> block: the exit status of the process. A run that returns lets the
  interpreter end with status 0; any exception reaches \<open>exit(1)\<close>.
\<close>

definition main :: "'d env \<Rightarrow> 'd database \<Rightarrow> nat" where
  "main e db = (case outcome (apply_migrations e db) of None \<Rightarrow> 0 | Some _ \<Rightarrow> 1)"

subsection \<open>Vocabulary of the properties\<close>



text \<open>The file an event is about.\<close>

fun event_file :: "event \<Rightarrow> string" where
  "event_file (Skipped f) = f"
| "event_file (Applying f) = f"
| "event_file (Executed f c) = f"
| "event_file (ExecError f c) = f"
| "event_file (Recorded f) = f"

text \<open>The files a run looked at, in the order it did, and those it recorded.\<close>

fun considered :: "event list \<Rightarrow> string list" where
  "considered [] = []"
| "considered (Skipped f # evs) = f # considered evs"
| "considered (Applying f # evs) = f # considered evs"
| "considered (ev # evs) = considered evs"

fun recorded :: "event list \<Rightarrow> string list" where
  "recorded [] = []"
| "recorded (Recorded f # evs) = f # recorded evs"
| "recorded (ev # evs) = recorded evs"




text \<open>The connection a run starts its loop on.\<close>

definition initial_conn :: "'d database \<Rightarrow> 'd conn" where
  "initial_conn db = \<lparr>committed = ensure_ledger db, working = ensure_ledger db, trace = []\<rparr>"

subsection \<open>A small database to run the model on\<close>

text \<open>
  The rest of the database is the list of the statements that took effect. The
  statement \<open>BAD\<close> raises \<open>psycopg2.Error\<close> and \<open>CRASH\<close> another exception;
  \<open>COMMIT\<close> commits the open transaction; \<open>SELECT nextval(seq)\<close> takes effect at
  once, outside the transaction, as a sequence does; any other statement takes effect
  in the transaction.
\<close>

definition demo_exec ::
  "string \<Rightarrow> string list database \<times> string list database \<Rightarrow>
   exec_status \<times> string list database \<times> string list database" where
  "demo_exec c both =
     (case both of (kept, seen) \<Rightarrow>
        if c = ''BAD'' then (DatabaseError, kept, seen)
        else if c = ''CRASH'' then (OtherException, kept, seen)
        else if c = ''COMMIT'' then (Ok, seen, seen)
        else if c = ''SELECT nextval(seq)'' then
          (Ok, kept\<lparr>tables := tables kept @ [c]\<rparr>, seen\<lparr>tables := tables seen @ [c]\<rparr>)
        else (Ok, kept, seen\<lparr>tables := tables seen @ [c]\<rparr>))"


definition demo_read :: "string \<Rightarrow> string option" where
  "demo_read f =
     (if f = ''003_c.sql'' then Some ''CREATE TABLE t(id INT); INSERT INTO t VALUES (1);''
      else if f = ''004_d.sql'' then Some ''S1; BAD; S3''
      else if f = ''005_e.sql'' then Some '' ; ;''
      else if f = ''007_g.sql'' then Some ''SELECT nextval(seq); BAD; S3''
      else if f = ''008_h.sql'' then
        Some ''CREATE TABLE t(id INT); INSERT INTO t VALUES (1); COMMIT; BAD''
      else if f = ''009_i.sql'' then Some ''S1; CRASH; S3''
      else Some ''SELECT 1;'')"

definition demo_env :: "string list env" where
  "demo_env =
     \<lparr>connects = True,
      listdir = Some [''003_c.sql'', ''001_a.sql'', ''notes.txt'', ''002_b.sql''],
      read_file = demo_read,
      exec = demo_exec\<rparr>"

definition demo_db :: "string list database" where
  "demo_db = \<lparr>tables = [], ledger = Some [''001'', ''002'']\<rparr>"

section \<open>The admin routes (admin/routes.py)\<close>

subsection \<open>Requests, sessions and replies\<close>

text \<open>The values a Flask session holds, and Python's truth test on them.\<close>

datatype py_value = PyNone | PyBool bool | PyInt int | PyStr string

fun truthy :: "py_value \<Rightarrow> bool" where
  "truthy PyNone = False"
| "truthy (PyBool b) = b"
| "truthy (PyInt i) = (i \<noteq> 0)"
| "truthy (PyStr s) = (s \<noteq> [])"

text \<open>
  A request: the session dictionary, the HTTP method, the form fields, and the query
  arguments read with \<open>type=int\<close> (absent when missing or not a number).
\<close>

record request =
  session :: "string \<rightharpoonup> py_value"
  http_method :: string
  form :: "string \<rightharpoonup> string"
  args :: "string \<rightharpoonup> int"

text \<open>
  What a handler meets: whether the execution of a query raises \<open>PGError\<close>, whether
  the lookup of a unit finds a row, and whether the bounds of a month (\<open>datetime(year,
  month, ...)\<close> and their conversion to UTC) can be computed or raise. The rows
  themselves only fill the page and are left out.
\<close>

record backend =
  query_fails :: "string \<Rightarrow> bool"
  unit_found :: bool
  month_ok :: "int \<Rightarrow> int \<Rightarrow> bool"

text \<open>
  What a handler does, in order, and what it returns; \<open>None\<close> is an exception no
  handler catches.
\<close>

datatype effect =
    Flash string string
  | GetDb
  | Execute string
  | Commit
  | Rollback
  | CloseDb

datatype response = Redirect string | RenderTemplate string | CsvDownload

type_synonym reply = "effect list \<times> response option"

text \<open>\<open>session.get(key)\<close>.\<close>

definition session_get :: "(string \<rightharpoonup> py_value) \<Rightarrow> string \<Rightarrow> py_value" where
  "session_get sess key = (case sess key of None \<Rightarrow> PyNone | Some v \<Rightarrow> v)"

text \<open>\<open>'user_id' not in session or not session.get('is_admin')\<close>.\<close>

definition not_admin :: "request \<Rightarrow> bool" where
  "not_admin req =
     (session req ''user_id'' = None \<or> \<not> truthy (session_get (session req) ''is_admin''))"

text \<open>\<open>not form.get(key)\<close>: the field is missing or empty.\<close>

definition form_blank :: "request \<Rightarrow> string \<Rightarrow> bool" where
  "form_blank req key = (case form req key of None \<Rightarrow> True | Some v \<Rightarrow> v = [])"

text \<open>One \<open>cursor.execute\<close> inside \<open>try ... except PGError: flash(...)\<close>.\<close>

definition try_query :: "backend \<Rightarrow> string \<Rightarrow> string \<Rightarrow> effect list" where
  "try_query b q msg =
     Execute q # (if query_fails b q then [Flash msg ''danger''] else [])"

subsection \<open>The handlers\<close>

definition admin_dashboard :: "backend \<Rightarrow> request \<Rightarrow> reply" where
  "admin_dashboard b req =
     (if not_admin req then
        ([Flash ''Unauthorized access!'' ''danger''], Some (Redirect ''main.login''))
      else ([], Some (RenderTemplate ''dashboard/admin.html'')))"

definition manage_users :: "backend \<Rightarrow> request \<Rightarrow> reply" where
  "manage_users b req =
     (if not_admin req then
        ([Flash ''Unauthorized access!'' ''danger''], Some (Redirect ''main.login''))
      else
        (GetDb #
         try_query b ''SELECT id, username, email, unit_number, created_at FROM users''
           ''Error fetching users'' @
         [CloseDb],
         Some (RenderTemplate ''admin_users.html'')))"

definition history_query :: "bool \<Rightarrow> string" where
  "history_query filtered =
     ''SELECT ... FROM meter_readings mr JOIN users u ON mr.user_id = u.id'' @
     (if filtered then '' WHERE mr.created_at BETWEEN %s AND %s'' else []) @
     '' ORDER BY u.unit_number::integer ASC, mr.created_at DESC''"

definition admin_history :: "backend \<Rightarrow> request \<Rightarrow> reply" where
  "admin_history b req =
     (if not_admin req then
        ([Flash ''Unauthorized access!'' ''danger''], Some (Redirect ''main.login''))
      else
        (let unfiltered =
               (GetDb # try_query b (history_query False) ''Error fetching history'' @
                [CloseDb],
                Some (RenderTemplate ''admin_history.html''))
         in case (args req ''month'', args req ''year'') of
              (Some month, Some year) \<Rightarrow>
                if month \<noteq> 0 \<and> year \<noteq> 0 then
                  (if month_ok b year month then
                     (GetDb # try_query b (history_query True) ''Error fetching history'' @
                      [CloseDb],
                      Some (RenderTemplate ''admin_history.html''))
                   else ([GetDb, CloseDb], None))
                else unfiltered
            | _ \<Rightarrow> unfiltered))"

definition unit_pincode :: "backend \<Rightarrow> request \<Rightarrow> reply" where
  "unit_pincode b req =
     (if not_admin req then
        ([Flash ''Unauthorized access!'' ''danger''], Some (Redirect ''main.login''))
      else
        (let listing =
               try_query b ''SELECT * FROM unit_pincode ORDER BY unit_number''
                 ''Error fetching pincodes'' @ [CloseDb]
         in if http_method req = ''POST'' then
              (if form_blank req ''unit_number'' \<or> form_blank req ''pin_code'' then
                 (GetDb # Flash ''Unit Number and Pin Code are required!'' ''danger'' # listing,
                  Some (RenderTemplate ''unit_pincode.html''))
               else
                 (let look = ''SELECT id FROM unit_pincode WHERE unit_number = %s'';
                      ins = ''INSERT INTO unit_pincode (unit_number, pin_code) VALUES (%s, %s)''
                  in (GetDb # Execute look #
                      (if query_fails b look then [Rollback, Flash ''Database error'' ''danger'']
                       else if unit_found b then [Flash ''Unit already exists!'' ''warning'']
                       else if query_fails b ins then
                         [Execute ins, Rollback, Flash ''Database error'' ''danger'']
                       else [Execute ins, Commit, Flash ''Pincode added'' ''success'']) @
                      [CloseDb],
                      Some (Redirect ''admin.unit_pincode''))))
            else (GetDb # listing, Some (RenderTemplate ''unit_pincode.html''))))"

definition download_readings :: "backend \<Rightarrow> request \<Rightarrow> reply" where
  "download_readings b req =
     (if not_admin req then
        ([Flash ''Permission denied'' ''danger''], Some (Redirect ''main.login''))
      else
        (let q = ''SELECT mr.created_at, u.username, u.unit_number, mr.reading, mr.notes FROM meter_readings mr JOIN users u ON mr.user_id = u.id ORDER BY mr.created_at DESC''
         in if query_fails b q then
              ([GetDb, Execute q, Flash ''Database error'' ''danger'', CloseDb],
               Some (Redirect ''admin.admin_history''))
            else ([GetDb, Execute q, CloseDb], Some CsvDownload)))"

text \<open>The effects that reach the database.\<close>

fun db_effect :: "effect \<Rightarrow> bool" where
  "db_effect (Flash msg cat) = False"
| "db_effect ef = True"

text \<open>Two sessions to try the handlers on: nobody logged in, and a user who is no admin.\<close>

definition anonymous_request :: request where
  "anonymous_request =
     \<lparr>session = Map.empty, http_method = ''POST'',
      form = [''unit_number'' \<mapsto> ''12'', ''pin_code'' \<mapsto> ''0000''], args = Map.empty\<rparr>"

definition user_request :: request where
  "user_request =
     \<lparr>session = [''user_id'' \<mapsto> PyInt 7], http_method = ''GET'',
      form = Map.empty, args = Map.empty\<rparr>"

definition demo_backend :: backend where
  "demo_backend =
     \<lparr>query_fails = (\<lambda>q. False), unit_found = False, month_ok = (\<lambda>y m. True)\<rparr>"

section \<open>Properties of the migration runner\<close>

subsection \<open>Connections and strings\<close>

lemma conn_simps [simp]:
  "committed (emit ev s) = committed s" "working (emit ev s) = working s"
  "trace (emit ev s) = trace s @ [ev]"
  "committed (commit s) = working s" "working (commit s) = working s"
  "trace (commit s) = trace s"
  "committed (rollback s) = committed s" "working (rollback s) = committed s"
  "trace (rollback s) = trace s"
  by (simp_all add: emit_def commit_def rollback_def)

lemma str_split_nonempty: "str_split sep s \<noteq> []"
  by (induction s) (auto split: list.splits)

lemma str_split_hd: "str_split sep s = takeWhile (\<lambda>c. c \<noteq> sep) s # tl (str_split sep s)"
  by (induction s) (auto split: list.splits)

lemma version_of_takeWhile: "version_of f = takeWhile (\<lambda>c. c \<noteq> CHR ''_'') f"
  unfolding version_of_def by (subst str_split_hd) simp

lemma sql_commands_nonempty: "[] \<notin> set (sql_commands body)"
  by (auto simp: sql_commands_def)

lemma considered_append [simp]: "considered (xs @ ys) = considered xs @ considered ys"
  by (induction xs rule: considered.induct) auto

lemma recorded_append [simp]: "recorded (xs @ ys) = recorded xs @ recorded ys"
  by (induction xs rule: recorded.induct) auto

lemma considered_Executed [simp]: "considered (map (Executed f) cs) = []"
  by (induction cs) auto

lemma recorded_Executed [simp]: "recorded (map (Executed f) cs) = []"
  by (induction cs) auto

subsection \<open>Ledger\<close>

lemma ledger_rows_ensure [simp]: "ledger_rows (ensure_ledger db) = ledger_rows db"
  by (simp add: ledger_rows_def ensure_ledger_def split: option.splits)




subsection \<open>The statements of one script\<close>

text \<open>One step of the statement loop, by the way the statement ends.\<close>

lemma run_commands_step:
  assumes "c \<noteq> []" and "exec e c (committed s, working s) = (st, kept, seen)"
  shows "run_commands e f (c # cs) s =
     (case st of
        Ok \<Rightarrow> run_commands e f cs (emit (Executed f c) (s\<lparr>committed := kept, working := seen\<rparr>))
      | DatabaseError \<Rightarrow>
          (Some (StatementError f c),
           rollback (emit (ExecError f c) (s\<lparr>committed := kept, working := seen\<rparr>)))
      | OtherException \<Rightarrow>
          (Some (UnexpectedError f c), s\<lparr>committed := kept, working := seen\<rparr>))"
  using assms by (cases st) simp_all

lemma exec_cases:
  obtains st kept seen where "exec e c (committed s, working s) = (st, kept, seen)"
  by (cases "exec e c (committed s, working s)") auto

lemma run_commands_events:
  "run_commands e f cmds s = (r, s') \<Longrightarrow>
     \<exists>evs. trace s' = trace s @ evs \<and> considered evs = [] \<and> recorded evs = []
        \<and> (\<forall>ev \<in> set evs. \<exists>c. ev = Executed f c \<or> ev = ExecError f c)"
proof (induction cmds arbitrary: s)
  case Nil
  then show ?case by simp
next
  case (Cons c cs)
  show ?case
  proof (cases "c = []")
    case True
    with Cons show ?thesis by simp
  next
    case False
    obtain st kept seen where ex: "exec e c (committed s, working s) = (st, kept, seen)"
      by (rule exec_cases)
    note step = run_commands_step [OF False ex, of f cs]
    show ?thesis
    proof (cases st)
      case Ok
      with step Cons.prems
      have "run_commands e f cs (emit (Executed f c) (s\<lparr>committed := kept, working := seen\<rparr>))
          = (r, s')"
        by simp
      from Cons.IH [OF this] obtain evs where
        "trace s' = trace s @ Executed f c # evs" "considered evs = []" "recorded evs = []"
        "\<forall>ev \<in> set evs. \<exists>c. ev = Executed f c \<or> ev = ExecError f c"
        by auto
      then show ?thesis
        by (intro exI [of _ "Executed f c # evs"]) auto
    next
      case DatabaseError
      with step Cons.prems show ?thesis by auto
    next
      case OtherException
      with step Cons.prems show ?thesis by auto
    qed
  qed
qed

lemma run_commands_trace_ok:
  "[] \<notin> set cmds \<Longrightarrow> run_commands e f cmds s = (None, s') \<Longrightarrow>
     trace s' = trace s @ map (Executed f) cmds"
proof (induction cmds arbitrary: s)
  case Nil
  then show ?case by simp
next
  case (Cons c cs)
  then have ne: "c \<noteq> []" by auto
  obtain st kept seen where ex: "exec e c (committed s, working s) = (st, kept, seen)"
    by (rule exec_cases)
  from run_commands_step [OF ne ex, of f cs] Cons.prems(2)
  have "st = Ok"
    and "run_commands e f cs (emit (Executed f c) (s\<lparr>committed := kept, working := seen\<rparr>))
          = (None, s')"
    by (cases st; simp)+
  from Cons.IH [OF _ this(2)] Cons.prems(1) show ?case by simp
qed



subsection \<open>One file\<close>

lemma apply_file_skip:
  "version_of f \<in> set applied \<Longrightarrow> apply_file e applied f s = (None, emit (Skipped f) s)"
  by (simp add: apply_file_def)

lemma apply_file_records:
  assumes "version_of f \<notin> set applied" "apply_file e applied f s = (None, s')"
  shows "\<exists>rows. ledger (committed s') = Some (rows @ [version_of f])"
  using assms
  by (auto simp: apply_file_def Let_def insert_version_def
      split: option.splits prod.splits if_splits)

text \<open>The ways the body of the file loop can end.\<close>

lemma apply_file_cases:
  assumes "apply_file e a f s = (r, s')"
  obtains
    (skip) "version_of f \<in> set a" "r = None" "s' = emit (Skipped f) s"
  | (unread) "version_of f \<notin> set a" "read_file e f = None" "r = Some (ReadError f)"
      "s' = emit (Applying f) s"
  | (failed) body err where "version_of f \<notin> set a" "read_file e f = Some body"
      "run_commands e f (sql_commands body) (emit (Applying f) s) = (Some err, s')"
      "r = Some err"
  | (unrecorded) body where "version_of f \<notin> set a" "read_file e f = Some body"
      "run_commands e f (sql_commands body) (emit (Applying f) s) = (None, s')"
      "insert_version (version_of f) (working s') = None" "r = Some (InsertError (version_of f))"
  | (applied) body s2 d where "version_of f \<notin> set a" "read_file e f = Some body"
      "run_commands e f (sql_commands body) (emit (Applying f) s) = (None, s2)"
      "insert_version (version_of f) (working s2) = Some d" "r = None"
      "s' = emit (Recorded f) (commit (s2\<lparr>working := d\<rparr>))"
proof (cases "version_of f \<in> set a")
  case True
  with assms skip show ?thesis by (simp add: apply_file_def)
next
  case notin: False
  show ?thesis
  proof (cases "read_file e f")
    case None
    with notin assms unread show ?thesis by (simp add: apply_file_def)
  next
    case (Some body)
    obtain r2 s2 where rc: "run_commands e f (sql_commands body) (emit (Applying f) s) = (r2, s2)"
      by (cases "run_commands e f (sql_commands body) (emit (Applying f) s)") auto
    show ?thesis
    proof (cases r2)
      case (Some err)
      with notin \<open>read_file e f = Some body\<close> rc assms have "r = Some err" "s' = s2"
        by (auto simp: apply_file_def)
      with notin \<open>read_file e f = Some body\<close> rc Some failed show ?thesis by simp
    next
      case None
      show ?thesis
      proof (cases "insert_version (version_of f) (working s2)")
        case ins: None
        with None notin \<open>read_file e f = Some body\<close> rc assms
        have "r = Some (InsertError (version_of f))" "s' = s2"
          by (auto simp: apply_file_def)
        with notin \<open>read_file e f = Some body\<close> rc None ins unrecorded show ?thesis by simp
      next
        case ins: (Some d)
        with None notin \<open>read_file e f = Some body\<close> rc assms
        have "r = None" "s' = emit (Recorded f) (commit (s2\<lparr>working := d\<rparr>))"
          by (auto simp: apply_file_def)
        with notin \<open>read_file e f = Some body\<close> rc None ins applied show ?thesis by simp
      qed
    qed
  qed
qed

text \<open>What the events of one file are.\<close>

lemma apply_file_events:
  assumes "apply_file e a f s = (r, s')"
  shows "\<exists>evs. trace s' = trace s @ evs \<and> considered evs = [f]
    \<and> (\<forall>ev \<in> set evs. version_of (event_file ev) \<in> set a \<longrightarrow> ev = Skipped (event_file ev))"
  using assms
proof (cases rule: apply_file_cases)
  case skip
  then show ?thesis by simp
next
  case unread
  then show ?thesis by simp
next
  case (failed body err)
  from run_commands_events [OF failed(3)] obtain evs where
    "trace s' = trace s @ Applying f # evs" "considered evs = []"
    "\<forall>ev \<in> set evs. \<exists>c. ev = Executed f c \<or> ev = ExecError f c"
    by auto
  with failed(1) show ?thesis
    by (intro exI [of _ "Applying f # evs"]) auto
next
  case (unrecorded body)
  from run_commands_events [OF unrecorded(3)] obtain evs where
    "trace s' = trace s @ Applying f # evs" "considered evs = []"
    "\<forall>ev \<in> set evs. \<exists>c. ev = Executed f c \<or> ev = ExecError f c"
    by auto
  with unrecorded(1) show ?thesis
    by (intro exI [of _ "Applying f # evs"]) auto
next
  case (applied body s2 d)
  from run_commands_trace_ok [OF sql_commands_nonempty applied(3)]
  have "trace s' = trace s @ Applying f # map (Executed f) (sql_commands body) @ [Recorded f]"
    using applied(6) by simp
  with applied(1) show ?thesis
    by (intro exI [of _ "Applying f # map (Executed f) (sql_commands body) @ [Recorded f]"])
      auto
qed



subsection \<open>The loop over the files\<close>


lemma migrate_loop_exists:
  "\<exists>r s'. migrate_loop e a fs s = (r, s')"
  by (cases "migrate_loop e a fs s") auto



lemma migrate_loop_considered:
  "migrate_loop e a fs s = (r, s') \<Longrightarrow>
     \<exists>seen rest. fs = seen @ rest \<and> considered (trace s') = considered (trace s) @ seen
        \<and> (r = None \<longrightarrow> rest = [])"
proof (induction fs arbitrary: s)
  case Nil
  then show ?case by simp
next
  case (Cons f fs)
  obtain r1 s1 where af: "apply_file e a f s = (r1, s1)"
    by (cases "apply_file e a f s") auto
  from apply_file_events [OF af]
  have c1: "considered (trace s1) = considered (trace s) @ [f]"
    by auto
  show ?case
  proof (cases r1)
    case (Some err)
    with af Cons.prems have "r = Some err" "s' = s1" by auto
    with c1 show ?thesis
      by (intro exI [of _ "[f]"] exI [of _ fs]) simp
  next
    case None
    with af Cons.prems have "migrate_loop e a fs s1 = (r, s')" by simp
    from Cons.IH [OF this] obtain seen rest where
      "fs = seen @ rest" "considered (trace s') = considered (trace s1) @ seen"
      "r = None \<longrightarrow> rest = []"
      by blast
    with c1 show ?thesis
      by (intro exI [of _ "f # seen"] exI [of _ rest]) simp
  qed
qed



text \<open>The listing plays no part once the files are chosen.\<close>

lemma run_commands_listdir [simp]:
  "run_commands (e\<lparr>listdir := l\<rparr>) f cmds s = run_commands e f cmds s"
  by (induction cmds arbitrary: s) (auto split: prod.splits exec_status.splits)

lemma apply_file_listdir [simp]:
  "apply_file (e\<lparr>listdir := l\<rparr>) a f s = apply_file e a f s"
  by (auto simp: apply_file_def Let_def split: option.splits prod.splits)

lemma migrate_loop_listdir [simp]:
  "migrate_loop (e\<lparr>listdir := l\<rparr>) a fs s = migrate_loop e a fs s"
  by (induction fs arbitrary: s) (auto split: option.splits prod.splits)

subsection \<open>A whole run\<close>

lemma initial_conn_simps [simp]:
  "committed (initial_conn db) = ensure_ledger db"
  "working (initial_conn db) = ensure_ledger db"
  "trace (initial_conn db) = []"
  by (simp_all add: initial_conn_def)

lemma run_until_close_unfold:
  assumes "listdir e = Some names"
    "migrate_loop e (ledger_rows db) (migration_files names) (initial_conn db) = (r, s')"
  shows "run_until_close e db = (r, case r of None \<Rightarrow> s' | Some err \<Rightarrow> rollback s')"
  using assms
  by (simp add: run_until_close_def commit_def initial_conn_def Let_def)

lemma apply_migrations_unfold:
  assumes "connects e" "listdir e = Some names"
    "migrate_loop e (ledger_rows db) (migration_files names) (initial_conn db) = (r, s')"
  shows "apply_migrations e db = \<lparr>outcome = r, final_db = committed s', events = trace s'\<rparr>"
  using assms(1) run_until_close_unfold [OF assms(2,3)]
  by (cases r) (simp_all add: apply_migrations_def)


subsection \<open>The demonstration database\<close>

lemma demo_connects: "connects demo_env"
  by (simp add: demo_env_def)

lemma demo_listdir:
  "listdir demo_env = Some [''003_c.sql'', ''001_a.sql'', ''notes.txt'', ''002_b.sql'']"
  by (simp add: demo_env_def)


lemma demo_run:
  "apply_migrations demo_env demo_db =
     \<lparr>outcome = None,
      final_db = \<lparr>tables = [''CREATE TABLE t(id INT)'', ''INSERT INTO t VALUES (1)''],
                  ledger = Some [''001'', ''002'', ''003'']\<rparr>,
      events = [Skipped ''001_a.sql'', Skipped ''002_b.sql'', Applying ''003_c.sql'',
                Executed ''003_c.sql'' ''CREATE TABLE t(id INT)'',
                Executed ''003_c.sql'' ''INSERT INTO t VALUES (1)'',
                Recorded ''003_c.sql'']\<rparr>"
  by code_simp

lemma demo_files:
  "migration_files [''003_c.sql'', ''001_a.sql'', ''notes.txt'', ''002_b.sql'']
     = [''001_a.sql'', ''002_b.sql'', ''003_c.sql'']"
  by code_simp

lemma demo_run_outcome: "outcome (apply_migrations demo_env demo_db) = None"
  by (simp add: demo_run)

lemma demo_no_connection:
  "outcome (apply_migrations (demo_env\<lparr>connects := False\<rparr>) demo_db) = Some ConnectError"
  by (simp add: apply_migrations_def demo_env_def)

subsection \<open>The version token\<close>

text \<open>
  C7. When a file name has an underscore, the version token is the text before the
  first one: a name \<open>v_rest\<close> with no underscore in \<open>v\<close> has version \<open>v\<close>. That token
  decides the skip check against the applied versions, and it is the row the ledger
  gets when the file is applied.
\<close>

theorem version_token_before_first_underscore:
  assumes "filename = v @ CHR ''_'' # rest" and "CHR ''_'' \<notin> set v"
  shows "version_of filename = v
    \<and> (v \<in> set applied \<longrightarrow> apply_file e applied filename s = (None, emit (Skipped filename) s))
    \<and> (v \<notin> set applied \<longrightarrow>
        (\<forall>s'. apply_file e applied filename s = (None, s') \<longrightarrow>
           (\<exists>rows. ledger (committed s') = Some (rows @ [v]))))"
proof -
  have v: "version_of filename = v"
    using assms by (auto simp: version_of_takeWhile takeWhile_tail)
  show ?thesis
    using apply_file_skip [of filename applied e s] apply_file_records [of filename applied e s]
    unfolding v by (simp add: v)
qed

theorem version_token_before_first_underscore_witness:
  "version_of ''001_init_db.sql'' = ''001''
   \<and> apply_file demo_env [''001''] ''001_init_db.sql''
        \<lparr>committed = \<lparr>tables = [], ledger = Some [''001'']\<rparr>,
           working = \<lparr>tables = [], ledger = Some [''001'']\<rparr>, trace = []\<rparr>
      = (None, \<lparr>committed = \<lparr>tables = [], ledger = Some [''001'']\<rparr>,
           working = \<lparr>tables = [], ledger = Some [''001'']\<rparr>,
           trace = [Skipped ''001_init_db.sql'']\<rparr>)"
  using version_token_before_first_underscore
    [of "''001_init_db.sql''" "''001''" "''init_db.sql''" "[''001'']" demo_env
      "\<lparr>committed = \<lparr>tables = [], ledger = Some [''001'']\<rparr>,
           working = \<lparr>tables = [], ledger = Some [''001'']\<rparr>, trace = []\<rparr>"]
  by (simp add: emit_def)

text \<open>
  C10. A file name with no underscore is not rejected: the whole name, extension
  included, is the version token of the skip check and of the ledger row.
\<close>

theorem version_token_without_underscore:
  assumes "CHR ''_'' \<notin> set filename"
  shows "version_of filename = filename
    \<and> (filename \<in> set applied \<longrightarrow>
          apply_file e applied filename s = (None, emit (Skipped filename) s))
    \<and> (filename \<notin> set applied \<longrightarrow>
        (\<forall>s'. apply_file e applied filename s = (None, s') \<longrightarrow>
           (\<exists>rows. ledger (committed s') = Some (rows @ [filename]))))"
proof -
  have v: "version_of filename = filename"
    using assms by (auto simp: version_of_takeWhile)
  show ?thesis
    using apply_file_skip [of filename applied e s] apply_file_records [of filename applied e s]
    unfolding v by (simp add: v)
qed

theorem version_token_without_underscore_witness:
  "version_of ''001.sql'' = ''001.sql''
   \<and> apply_file demo_env [] ''001.sql''
        \<lparr>committed = \<lparr>tables = [], ledger = Some []\<rparr>,
           working = \<lparr>tables = [], ledger = Some []\<rparr>, trace = []\<rparr>
      = (None, \<lparr>committed = \<lparr>tables = [''SELECT 1''], ledger = Some [''001.sql'']\<rparr>,
           working = \<lparr>tables = [''SELECT 1''], ledger = Some [''001.sql'']\<rparr>,
           trace = [Applying ''001.sql'', Executed ''001.sql'' ''SELECT 1'',
                    Recorded ''001.sql'']\<rparr>)"
proof -
  have "apply_file demo_env [] ''001.sql''
        \<lparr>committed = \<lparr>tables = [], ledger = Some []\<rparr>,
           working = \<lparr>tables = [], ledger = Some []\<rparr>, trace = []\<rparr>
      = (None, \<lparr>committed = \<lparr>tables = [''SELECT 1''], ledger = Some [''001.sql'']\<rparr>,
           working = \<lparr>tables = [''SELECT 1''], ledger = Some [''001.sql'']\<rparr>,
           trace = [Applying ''001.sql'', Executed ''001.sql'' ''SELECT 1'',
                    Recorded ''001.sql'']\<rparr>)"
    by code_simp
  then show ?thesis
    using version_token_without_underscore [of "''001.sql''" "[]" demo_env
      "\<lparr>committed = \<lparr>tables = [], ledger = Some []\<rparr>,
           working = \<lparr>tables = [], ledger = Some []\<rparr>, trace = []\<rparr>"]
    by simp
qed

subsection \<open>Runs that have nothing to do\<close>

text \<open>
  C6. When the directory lists no file that ends in \<open>.sql\<close>, the run raises nothing,
  executes no statement (its trace is empty) and leaves the database as it found it,
  but for the ledger table, which it creates when missing.
\<close>

theorem no_migration_files_is_noop:
  assumes "connects e" and "listdir e = Some names"
    and "\<forall>f \<in> set names. \<not> endswith f ''.sql''"
  shows "apply_migrations e db =
     \<lparr>outcome = None, final_db = ensure_ledger db, events = []\<rparr>"
proof -
  have "migration_files names = []"
    using assms(3) by (simp add: migration_files_def)
  then have "migrate_loop e (ledger_rows db) (migration_files names) (initial_conn db)
      = (None, initial_conn db)"
    by simp
  from apply_migrations_unfold [OF assms(1,2) this] show ?thesis by simp
qed

theorem no_migration_files_is_noop_witness:
  "apply_migrations (demo_env\<lparr>listdir := Some [''notes.txt'', ''sql'']\<rparr>)
      \<lparr>tables = [], ledger = None\<rparr>
    = \<lparr>outcome = None, final_db = \<lparr>tables = [], ledger = Some []\<rparr>, events = []\<rparr>"
  using no_migration_files_is_noop
    [of "demo_env\<lparr>listdir := Some [''notes.txt'', ''sql'']\<rparr>" "[''notes.txt'', ''sql'']"
        "\<lparr>tables = [], ledger = None\<rparr>"]
  by (simp add: demo_env_def endswith_def ensure_ledger_def)

text \<open>
  C8. The process exits with status 0 when \<open>apply_migrations\<close> returns, and with a
  status other than 0 when it raises.
\<close>

theorem main_exit_status:
  "(outcome (apply_migrations e db) = None \<longrightarrow> main e db = 0)
   \<and> (outcome (apply_migrations e db) \<noteq> None \<longrightarrow> main e db \<noteq> 0)"
  by (auto simp: main_def split: option.splits)

theorem main_exit_status_witness:
  "main demo_env demo_db = 0 \<and> main (demo_env\<lparr>connects := False\<rparr>) demo_db \<noteq> 0"
  using main_exit_status [of demo_env demo_db]
    main_exit_status [of "demo_env\<lparr>connects := False\<rparr>" demo_db]
    demo_run_outcome demo_no_connection
  by simp

subsection \<open>Running twice\<close>



subsection \<open>Order\<close>

lemma migration_files_mset:
  "mset names' = mset names \<Longrightarrow> migration_files names' = migration_files names"
proof -
  assume "mset names' = mset names"
  then have "mset (filter (\<lambda>f. endswith f ''.sql'') names')
      = mset (filter (\<lambda>f. endswith f ''.sql'') names)"
    by simp
  then have "mset (sort (filter (\<lambda>f. endswith f ''.sql'') names))
      = mset (filter (\<lambda>f. endswith f ''.sql'') names')"
    by simp
  from properties_for_sort [OF this] show ?thesis
    by (simp add: migration_files_def)
qed

text \<open>
  C4. The files a run looks at are an initial part of the sorted list of the names
  ending in \<open>.sql\<close>, all of it when the run returns. That list is ascending, strictly
  so when the listing has no name twice, and a listing of the same names in another
  order gives the same run.
\<close>

theorem scripts_processed_in_sorted_order:
  assumes "connects e" and "listdir e = Some names"
  shows "sorted (migration_files names)
    \<and> (distinct names \<longrightarrow> sorted_wrt (<) (migration_files names))
    \<and> (\<forall>names'. mset names' = mset names \<longrightarrow>
          apply_migrations (e\<lparr>listdir := Some names'\<rparr>) db = apply_migrations e db)
    \<and> (\<exists>rest. migration_files names = considered (events (apply_migrations e db)) @ rest
          \<and> (outcome (apply_migrations e db) = None \<longrightarrow> rest = []))"
proof -
  have srt: "sorted (migration_files names)"
    by (simp add: migration_files_def)
  have strict: "sorted_wrt (<) (migration_files names)" if "distinct names"
    using that by (simp add: migration_files_def strict_sorted_iff)
  have perm: "apply_migrations (e\<lparr>listdir := Some names'\<rparr>) db = apply_migrations e db"
    if "mset names' = mset names" for names'
    using migration_files_mset [OF that] assms(2)
    by (simp add: apply_migrations_def run_until_close_def)
  obtain r s' where
    ml: "migrate_loop e (ledger_rows db) (migration_files names) (initial_conn db) = (r, s')"
    using migrate_loop_exists by blast
  note run = apply_migrations_unfold [OF assms ml]
  from migrate_loop_considered [OF ml] obtain seen rest where
    "migration_files names = seen @ rest" "considered (trace s') = seen" "r = None \<longrightarrow> rest = []"
    by auto
  then have "\<exists>rest. migration_files names = considered (events (apply_migrations e db)) @ rest
          \<and> (outcome (apply_migrations e db) = None \<longrightarrow> rest = [])"
    by (simp add: run)
  with srt strict perm show ?thesis by blast
qed

theorem scripts_processed_in_sorted_order_witness:
  "migration_files [''003_c.sql'', ''001_a.sql'', ''notes.txt'', ''002_b.sql'']
     = [''001_a.sql'', ''002_b.sql'', ''003_c.sql'']
   \<and> considered (events (apply_migrations demo_env demo_db))
     = [''001_a.sql'', ''002_b.sql'', ''003_c.sql'']
   \<and> sorted [''001_a.sql'', ''002_b.sql'', ''003_c.sql'']
   \<and> apply_migrations
        (demo_env\<lparr>listdir := Some [''001_a.sql'', ''002_b.sql'', ''notes.txt'', ''003_c.sql'']\<rparr>)
        demo_db
     = apply_migrations demo_env demo_db"
  using scripts_processed_in_sorted_order [OF demo_connects demo_listdir, of demo_db]
  by (simp add: demo_files demo_run)

subsection \<open>Scripts without statements\<close>

lemma dropWhile_all_iff:
  "(\<forall>c \<in> set (dropWhile P w). P c) \<longleftrightarrow> (\<forall>c \<in> set w. P c)"
proof
  assume a: "\<forall>c \<in> set (dropWhile P w). P c"
  have "dropWhile P w = []"
  proof (rule ccontr)
    assume ne: "dropWhile P w \<noteq> []"
    then have "\<not> P (hd (dropWhile P w))" by (rule hd_dropWhile)
    moreover have "hd (dropWhile P w) \<in> set (dropWhile P w)" using ne by simp
    ultimately show False using a by blast
  qed
  then show "\<forall>c \<in> set w. P c" by (simp add: dropWhile_eq_Nil_conv)
next
  assume "\<forall>c \<in> set w. P c"
  then show "\<forall>c \<in> set (dropWhile P w). P c"
    by (meson set_dropWhileD)
qed

lemma strip_empty_iff: "strip w = [] \<longleftrightarrow> (\<forall>c \<in> set w. is_space c)"
proof -
  have "strip w = [] \<longleftrightarrow> (\<forall>c \<in> set (dropWhile is_space w). is_space c)"
    by (simp add: strip_def dropWhile_eq_Nil_conv)
  then show ?thesis by (simp only: dropWhile_all_iff)
qed

lemma str_split_chars:
  "\<Union> (set ` set (str_split sep s)) = set s - {sep}"
proof (induction s)
  case Nil
  then show ?case by simp
next
  case (Cons c cs)
  obtain w ws where sp: "str_split sep cs = w # ws"
    by (cases "str_split sep cs") (auto simp: str_split_nonempty)
  with Cons.IH have ih: "set w \<union> \<Union> (set ` set ws) = set cs - {sep}" by simp
  show ?case
  proof (cases "c = sep")
    case True
    with sp ih show ?thesis by auto
  next
    case False
    with sp have "\<Union> (set ` set (str_split sep (c # cs))) = insert c (set w \<union> \<Union> (set ` set ws))"
      by simp
    with ih False show ?thesis by auto
  qed
qed

lemma sql_commands_empty_iff:
  "sql_commands sql_script = [] \<longleftrightarrow> (\<forall>c \<in> set sql_script. is_space c \<or> c = CHR '';'')"
proof -
  have "sql_commands sql_script = [] \<longleftrightarrow>
      (\<forall>w \<in> set (str_split (CHR '';'') sql_script). \<forall>c \<in> set w. is_space c)"
    by (simp add: sql_commands_def filter_empty_conv strip_empty_iff)
  also have "\<dots> \<longleftrightarrow> (\<forall>c \<in> \<Union> (set ` set (str_split (CHR '';'') sql_script)). is_space c)"
    by blast
  also have "\<dots> \<longleftrightarrow> (\<forall>c \<in> set sql_script. is_space c \<or> c = CHR '';'')"
    unfolding str_split_chars by blast
  finally show ?thesis .
qed

text \<open>
  C5. An unapplied script that yields no statement (every character of it is
  whitespace or a semicolon) executes nothing, succeeds, and its version is inserted
  into the ledger and committed.
\<close>

theorem empty_script_is_recorded:
  assumes "version_of filename \<notin> set applied"
    and "read_file e filename = Some sql_script"
    and "sql_commands sql_script = []"
    and "ledger (working s) = Some rows" and "version_of filename \<notin> set rows"
  shows "(\<forall>c \<in> set sql_script. is_space c \<or> c = CHR '';'')
    \<and> apply_file e applied filename s =
       (None,
        \<lparr>committed = (working s)\<lparr>ledger := Some (rows @ [version_of filename])\<rparr>,
         working = (working s)\<lparr>ledger := Some (rows @ [version_of filename])\<rparr>,
         trace = trace s @ [Applying filename, Recorded filename]\<rparr>)"
  using assms sql_commands_empty_iff [of sql_script]
  by (simp add: apply_file_def Let_def insert_version_def emit_def commit_def)

theorem empty_script_is_recorded_witness:
  "sql_commands '' ; ;'' = []
   \<and> apply_file demo_env [''001'', ''002''] ''005_e.sql''
        \<lparr>committed = demo_db, working = demo_db, trace = []\<rparr> =
       (None,
        \<lparr>committed = \<lparr>tables = [], ledger = Some [''001'', ''002'', ''005'']\<rparr>,
         working = \<lparr>tables = [], ledger = Some [''001'', ''002'', ''005'']\<rparr>,
         trace = [Applying ''005_e.sql'', Recorded ''005_e.sql'']\<rparr>)"
proof -
  have v: "version_of ''005_e.sql'' = ''005''" by code_simp
  have h1: "version_of ''005_e.sql'' \<notin> set [''001'', ''002'']" by code_simp
  have h2: "read_file demo_env ''005_e.sql'' = Some '' ; ;''"
    by (simp add: demo_env_def demo_read_def)
  have h3: "sql_commands '' ; ;'' = []" by code_simp
  have h4: "ledger (working \<lparr>committed = demo_db, working = demo_db, trace = []\<rparr>)
      = Some [''001'', ''002'']"
    by (simp add: demo_db_def)
  from empty_script_is_recorded [OF h1 h2 h3 h4 h1] h3 show ?thesis
    by (simp add: v demo_db_def)
qed

subsection \<open>What the ledger records\<close>








subsection \<open>A statement that fails\<close>





text \<open>
  A statement that raises something else than \<open>psycopg2.Error\<close> passes the inner
  handler: no error line, and the rollback is that of the outer handler.
\<close>

lemma demo_other_exception:
  "run_until_close (demo_env\<lparr>listdir := Some [''009_i.sql'']\<rparr>) demo_db =
     (Some (UnexpectedError ''009_i.sql'' ''CRASH''),
      \<lparr>committed = demo_db, working = demo_db,
       trace = [Applying ''009_i.sql'', Executed ''009_i.sql'' ''S1'']\<rparr>)"
  by code_simp

section \<open>Properties of the admin routes\<close>

text \<open>
  C9. In a session without \<open>user_id\<close>, or whose \<open>is_admin\<close> is absent or false, each of
  the five handlers flashes a message and returns the redirect to the login page, and
  nothing else: it takes no database connection and executes no query.
\<close>

theorem admin_routes_require_admin:
  assumes "session req ''user_id'' = None \<or> session req ''is_admin'' = None
           \<or> \<not> truthy (session_get (session req) ''is_admin'')"
  shows "\<forall>handler \<in> {admin_dashboard, manage_users, admin_history, unit_pincode,
                      download_readings}.
           snd (handler b req) = Some (Redirect ''main.login'')
           \<and> filter db_effect (fst (handler b req)) = []"
proof -
  have "not_admin req"
    using assms by (auto simp: not_admin_def session_get_def)
  then show ?thesis
    by (simp add: admin_dashboard_def manage_users_def admin_history_def unit_pincode_def
        download_readings_def)
qed

theorem admin_routes_require_admin_witness:
  "snd (unit_pincode demo_backend anonymous_request) = Some (Redirect ''main.login'')
   \<and> fst (unit_pincode demo_backend anonymous_request) = [Flash ''Unauthorized access!'' ''danger'']
   \<and> snd (download_readings demo_backend user_request) = Some (Redirect ''main.login'')
   \<and> filter db_effect (fst (manage_users demo_backend user_request)) = []
   \<and> filter db_effect (fst (admin_history demo_backend user_request)) = []
   \<and> snd (admin_dashboard demo_backend user_request) = Some (Redirect ''main.login'')"
proof -
  have a: "session anonymous_request ''user_id'' = None"
    by (simp add: anonymous_request_def)
  have u: "session user_request ''is_admin'' = None"
    by (simp add: user_request_def)
  have f: "fst (unit_pincode demo_backend anonymous_request) = [Flash ''Unauthorized access!'' ''danger'']"
    by (simp add: unit_pincode_def not_admin_def a)
  from admin_routes_require_admin [of anonymous_request demo_backend]
    admin_routes_require_admin [of user_request demo_backend] a u f
  show ?thesis by simp
qed

end

